theory Spec2Isabelle
  imports Main "HOL-Library.Word" "HOL-Library.Signed_Division"
begin

section \<open>Shared data\<close>

text \<open>
  Byte strings are lists of 8-bit words. \<open>common.Signature\<close>, \<open>crypto.PublicKey\<close>,
  \<open>common.Address\<close> and \<open>PartSetID\<close> are declared in other packages and are only
  stored, copied and handed to the library; they are kept as opaque byte strings.
  A Go pointer that the code compares with \<open>nil\<close> is an \<open>option\<close>.
\<close>

type_synonym bytes = "8 word list"
type_synonym Signature = bytes
type_synonym PublicKey = bytes
type_synonym Address = bytes
type_synonym PartSetID = bytes

section \<open>The signed-message base (consensus, \<open>signedBase\<close>)\<close>

text \<open>
  The library functions \<open>crypto.SHA3Sum256\<close>, \<open>Signature.RecoverPublicKey\<close> and
  \<open>common.NewAccountAddressFromPublicKey\<close> are parameters. \<open>RecoverPublicKey\<close> returns
  \<open>None\<close> where the Go function returns an error. A digest and a derived address are
  never \<open>nil\<close>.
\<close>

record crypto =
  SHA3Sum256 :: "bytes \<Rightarrow> bytes"
  RecoverPublicKey :: "Signature \<Rightarrow> bytes \<Rightarrow> PublicKey option"
  NewAccountAddressFromPublicKey :: "PublicKey \<Rightarrow> Address"

text \<open>
  \<open>byteser\<close> is what \<open>s._byteser.bytes()\<close> returns: the canonical bytes of the message
  that embeds the base. \<open>cached_hash\<close> and \<open>cached_publicKey\<close> are the fields \<open>_hash\<close>
  and \<open>_publicKey\<close>; \<open>None\<close> is \<open>nil\<close>.
\<close>

record signedBase =
  byteser :: bytes
  Signature :: Signature
  cached_hash :: "bytes option"
  cached_publicKey :: "PublicKey option"

datatype signed_error = BadSignature

text \<open>Every method takes the receiver and returns its result with the updated receiver.\<close>

definition hash :: "crypto \<Rightarrow> 'a signedBase_scheme \<Rightarrow> bytes \<times> 'a signedBase_scheme" where
  "hash c s =
     (case cached_hash s of
        None \<Rightarrow> (let h = SHA3Sum256 c (byteser s) in (h, s\<lparr>cached_hash := Some h\<rparr>))
      | Some h \<Rightarrow> (h, s))"

definition publicKey ::
  "crypto \<Rightarrow> 'a signedBase_scheme \<Rightarrow> PublicKey option \<times> 'a signedBase_scheme" where
  "publicKey c s =
     (case cached_publicKey s of
        None \<Rightarrow>
          (let (h, s1) = hash c s in
           case RecoverPublicKey c (Signature s1) h of
             None \<Rightarrow> (None, s1)
           | Some pk \<Rightarrow> (Some pk, s1\<lparr>cached_publicKey := Some pk\<rparr>))
      | Some pk \<Rightarrow> (Some pk, s))"

definition address ::
  "crypto \<Rightarrow> 'a signedBase_scheme \<Rightarrow> Address option \<times> 'a signedBase_scheme" where
  "address c s =
     (let (pk, s1) = publicKey c s in
      case pk of
        None \<Rightarrow> (None, s1)
      | Some k \<Rightarrow> (Some (NewAccountAddressFromPublicKey c k), s1))"

definition verify ::
  "crypto \<Rightarrow> 'a signedBase_scheme \<Rightarrow> (signed_error + unit) \<times> 'a signedBase_scheme" where
  "verify c s =
     (let (pk, s1) = publicKey c s in
      if pk = None then (Inl BadSignature, s1) else (Inr (), s1))"

section \<open>Vote messages and vote lists (consensus, \<open>voteList\<close>)\<close>

datatype voteType = voteTypePrevote | voteTypePrecommit

text \<open>
  A vote message embeds the signed base and adds the vote's own fields. \<open>Height\<close> is
  an \<open>int64\<close>, \<open>Round\<close> an \<open>int32\<close>; \<open>BlockPartSetID\<close> is a pointer.
\<close>

record voteMessage = signedBase +
  Height :: "64 word"
  Round :: "32 word"
  Type :: voteType
  BlockID :: bytes
  BlockPartSetID :: "PartSetID option"

record voteList =
  vl_Round :: "32 word"
  vl_BlockPartSetID :: "PartSetID option"
  Signatures :: "Signature list"

text \<open>
  \<open>module.ValidatorList\<close> and \<open>module.Block\<close> are Go interfaces: a record of the methods
  that \<open>Verify\<close> calls. \<open>IndexOf\<close> receives the possibly \<open>nil\<close> address and
  returns a Go \<open>int\<close> of which only the sign is read; \<open>Len\<close> returns a Go \<open>int\<close>,
  64 bits wide, on which \<open>Verify\<close> computes.
\<close>

record ValidatorList =
  IndexOf :: "Address option \<Rightarrow> int"
  Len :: "64 word"

record Block =
  blk_Height :: "64 word"
  blk_ID :: bytes
  NextValidators :: ValidatorList

text \<open>
  The canonical bytes of a vote, from its height, round, type, block identifier and
  part-set identifier: the message codec, a parameter.
\<close>

type_synonym voteByteser =
  "64 word \<Rightarrow> 32 word \<Rightarrow> voteType \<Rightarrow> bytes \<Rightarrow> PartSetID option \<Rightarrow> bytes"

text \<open>
  Modelled from the spec: \<open>newVoteMessage\<close> and the \<open>bytes\<close> method of a vote message
  are defined in another file of the package. The spec derives the signable payload from
  the vote's own fields, not from the signature, and has the hash and the key computed on
  demand; so a new message has no signature and empty caches, and its payload is
  \<open>voteBytes\<close> of the fields that \<open>Verify\<close> assigns before the first use.
\<close>

definition voteTemplate :: "voteByteser \<Rightarrow> voteList \<Rightarrow> Block \<Rightarrow> voteMessage" where
  "voteTemplate voteBytes vl block =
     \<lparr> byteser = voteBytes (blk_Height block) (vl_Round vl) voteTypePrecommit
                   (blk_ID block) (vl_BlockPartSetID vl),
       Signature = [],
       cached_hash = None,
       cached_publicKey = None,
       Height = blk_Height block,
       Round = vl_Round vl,
       Type = voteTypePrecommit,
       BlockID = blk_ID block,
       BlockPartSetID = vl_BlockPartSetID vl \<rparr>"

datatype verify_error =
    UnexpectedVoters
  | BadVoter "Address option" nat
  | InsufficientVotes nat "64 word"

text \<open>
  The loop of \<open>Verify\<close> over the signatures, from index \<open>i\<close>. The one message
  object is reused: each round stores the next signature in it and asks it for its
  address, so the caches filled in one round are still there in the next.
\<close>

fun verifyLoop ::
  "crypto \<Rightarrow> ValidatorList \<Rightarrow> voteMessage \<Rightarrow> nat \<Rightarrow> Signature list \<Rightarrow>
     verify_error + voteMessage" where
  "verifyLoop c validators msg i [] = Inr msg"
| "verifyLoop c validators msg i (sig # sigs) =
     (let msg1 = msg\<lparr>Signature := sig\<rparr>;
          (a, msg2) = address c msg1;
          index = IndexOf validators a
      in if index < 0 then Inl (BadVoter (fst (address c msg2)) i)
         else verifyLoop c validators msg2 (Suc i) sigs)"

text \<open>
  Go's \<open>*\<close> on \<open>int\<close> wraps (the product is a word), \<open>/\<close> truncates towards zero
  (\<open>sdiv\<close> on the signed reading), and \<open>len\<close> of a slice is compared as a signed number.
\<close>

definition twoThirds :: "ValidatorList \<Rightarrow> int" where
  "twoThirds validators = sint (Len validators * 2) sdiv 3"

definition Verify :: "crypto \<Rightarrow> voteByteser \<Rightarrow> voteList \<Rightarrow> Block \<Rightarrow> verify_error + unit" where
  "Verify c voteBytes vl block =
     (if blk_Height block = 1 then
        (if length (Signatures vl) = 0 then Inr () else Inl UnexpectedVoters)
      else
        (let msg = voteTemplate voteBytes vl block;
             validators = NextValidators block
         in case verifyLoop c validators msg 0 (Signatures vl) of
              Inl e \<Rightarrow> Inl e
            | Inr msg' \<Rightarrow>
                if int (length (Signatures vl)) > twoThirds validators then Inr ()
                else Inl (InsufficientVotes (length (Signatures vl)) (Len validators))))"

subsection \<open>Resolving a signature\<close>

text \<open>
  A signature resolves against a validator list and a payload when the key recovered
  from it and the payload's digest has an address that the list finds.
\<close>

definition resolves :: "crypto \<Rightarrow> ValidatorList \<Rightarrow> bytes \<Rightarrow> Signature \<Rightarrow> bool" where
  "resolves c validators payload sig =
     (case RecoverPublicKey c sig (SHA3Sum256 c payload) of
        None \<Rightarrow> False
      | Some pk \<Rightarrow> 0 \<le> IndexOf validators (Some (NewAccountAddressFromPublicKey c pk)))"

text \<open>
  What the loop of \<open>Verify\<close> keeps true of its message while every signature so far
  resolved: the payload is the template's, a cached digest is the payload's, and a cached
  key has an address that the list finds.
\<close>

definition loopInv :: "crypto \<Rightarrow> ValidatorList \<Rightarrow> bytes \<Rightarrow> voteMessage \<Rightarrow> bool" where
  "loopInv c validators payload msg =
     (byteser msg = payload \<and>
      (case cached_hash msg of None \<Rightarrow> True | Some h \<Rightarrow> h = SHA3Sum256 c payload) \<and>
      (case cached_publicKey msg of
         None \<Rightarrow> True
       | Some pk \<Rightarrow> 0 \<le> IndexOf validators (Some (NewAccountAddressFromPublicKey c pk))))"

subsection \<open>Building a vote list from a batch of vote messages\<close>

datatype panic =
    BadBlockID bytes bytes
  | NilDereference
  | NotWritable

text \<open>
  The counting loop of \<open>newVoteList\<close>: round \<open>i\<close> stores the signature of message
  \<open>i\<close> at index \<open>i\<close>, then compares the block identifiers (\<open>bytes.Equal\<close>, under which
  a \<open>nil\<close> and an empty slice are equal, as they are here) and panics on a difference.
\<close>

function newVoteListLoop ::
  "voteMessage list \<Rightarrow> bytes \<Rightarrow> nat \<Rightarrow> voteList \<Rightarrow> panic + voteList" where
  "newVoteListLoop msgs blockID i vl =
     (if i < length msgs then
        (let vl1 = vl\<lparr>Signatures := (Signatures vl)[i := Signature (msgs ! i)]\<rparr>
         in if blockID \<noteq> BlockID (msgs ! i)
            then Inl (BadBlockID blockID (BlockID (msgs ! i)))
            else newVoteListLoop msgs blockID (Suc i) vl1)
      else Inr vl)"
  by pat_completeness auto
termination
  by (relation "measure (\<lambda>(msgs, blockID, i, vl). length msgs - i)") auto

declare newVoteListLoop.simps [simp del]

text \<open>The zero value of a vote list; the zero value of a signature is the empty one.\<close>

definition emptyVoteList :: voteList where
  "emptyVoteList = \<lparr> vl_Round = 0, vl_BlockPartSetID = None, Signatures = [] \<rparr>"

definition newVoteList :: "voteMessage list \<Rightarrow> panic + voteList" where
  "newVoteList msgs =
     (let vl = emptyVoteList; l = length msgs
      in if l > 0 then
           (let vl1 = vl\<lparr>vl_Round := Round (msgs ! 0),
                          vl_BlockPartSetID := BlockPartSetID (msgs ! 0),
                          Signatures := replicate l []\<rparr>;
                blockID = BlockID (msgs ! 0)
            in newVoteListLoop msgs blockID 0 vl1)
         else Inr vl)"

subsection \<open>Serialization\<close>

text \<open>
  Modelled from the spec: the codec \<open>vlCodec\<close> (\<open>codec.MP\<close>) is defined in another
  package. The spec gives the wire format of a vote list as the round (signed 32-bit),
  the block part-set identifier and the ordered list of signatures, in a length-prefixed,
  canonical and deterministic binary encoding, and leaves the byte layout open. The
  layout chosen here: an unsigned 32-bit number is four bytes, most significant first; a
  byte string is its length as such a number, then its bytes; the round is its 32 bits;
  the part-set identifier is a tag byte, 0 for \<open>nil\<close> and 1 followed by the identifier;
  the signature list is its count, then each signature as a byte string. Encoding fails
  where a length does not fit 32 bits.
\<close>

definition enc_u32 :: "nat \<Rightarrow> bytes" where
  "enc_u32 n =
     [of_nat (n div 16777216 mod 256), of_nat (n div 65536 mod 256),
      of_nat (n div 256 mod 256), of_nat (n mod 256)]"

fun dec_u32 :: "bytes \<Rightarrow> (nat \<times> bytes) option" where
  "dec_u32 (a # b # c # d # rest) =
     Some (unat a * 16777216 + unat b * 65536 + unat c * 256 + unat d, rest)"
| "dec_u32 _ = None"

definition enc_bytes :: "bytes \<Rightarrow> bytes option" where
  "enc_bytes bs =
     (if length bs < 4294967296 then Some (enc_u32 (length bs) @ bs) else None)"

definition dec_bytes :: "bytes \<Rightarrow> (bytes \<times> bytes) option" where
  "dec_bytes bs =
     (case dec_u32 bs of
        None \<Rightarrow> None
      | Some (n, rest) \<Rightarrow>
          if n \<le> length rest then Some (take n rest, drop n rest) else None)"

definition enc_psid :: "PartSetID option \<Rightarrow> bytes option" where
  "enc_psid p =
     (case p of
        None \<Rightarrow> Some [0]
      | Some i \<Rightarrow> (case enc_bytes i of None \<Rightarrow> None | Some e \<Rightarrow> Some (1 # e)))"

fun dec_psid :: "bytes \<Rightarrow> (PartSetID option \<times> bytes) option" where
  "dec_psid [] = None"
| "dec_psid (t # rest) =
     (if t = 0 then Some (None, rest)
      else if t = 1 then
        (case dec_bytes rest of None \<Rightarrow> None | Some (i, rest') \<Rightarrow> Some (Some i, rest'))
      else None)"

fun enc_items :: "Signature list \<Rightarrow> bytes option" where
  "enc_items [] = Some []"
| "enc_items (x # xs) =
     (case enc_bytes x of
        None \<Rightarrow> None
      | Some e \<Rightarrow> (case enc_items xs of None \<Rightarrow> None | Some es \<Rightarrow> Some (e @ es)))"

fun dec_items :: "nat \<Rightarrow> bytes \<Rightarrow> (Signature list \<times> bytes) option" where
  "dec_items 0 bs = Some ([], bs)"
| "dec_items (Suc n) bs =
     (case dec_bytes bs of
        None \<Rightarrow> None
      | Some (x, rest) \<Rightarrow>
          (case dec_items n rest of
             None \<Rightarrow> None
           | Some (xs, rest') \<Rightarrow> Some (x # xs, rest')))"

definition enc_sigs :: "Signature list \<Rightarrow> bytes option" where
  "enc_sigs xs =
     (if length xs < 4294967296
      then (case enc_items xs of None \<Rightarrow> None | Some es \<Rightarrow> Some (enc_u32 (length xs) @ es))
      else None)"

definition dec_sigs :: "bytes \<Rightarrow> (Signature list \<times> bytes) option" where
  "dec_sigs bs =
     (case dec_u32 bs of None \<Rightarrow> None | Some (n, rest) \<Rightarrow> dec_items n rest)"

datatype codec_error = EncodeError | DecodeError

text \<open>
  Modelled from the spec: \<open>vlCodec.MarshalToBytes\<close> on a vote list, in the layout above.
\<close>

definition MarshalToBytes :: "voteList \<Rightarrow> codec_error + bytes" where
  "MarshalToBytes vl =
     (case enc_psid (vl_BlockPartSetID vl) of
        None \<Rightarrow> Inl EncodeError
      | Some p \<Rightarrow>
          (case enc_sigs (Signatures vl) of
             None \<Rightarrow> Inl EncodeError
           | Some ss \<Rightarrow> Inr (enc_u32 (unat (vl_Round vl)) @ p @ ss)))"

text \<open>
  Modelled from the spec: \<open>vlCodec.UnmarshalFromBytes\<close> into a vote list. As the Go
  function does, it returns the bytes left over with the value.
\<close>

definition UnmarshalFromBytes :: "bytes \<Rightarrow> codec_error + (bytes \<times> voteList)" where
  "UnmarshalFromBytes bs =
     (case dec_u32 bs of
        None \<Rightarrow> Inl DecodeError
      | Some (r, bs1) \<Rightarrow>
          (case dec_psid bs1 of
             None \<Rightarrow> Inl DecodeError
           | Some (p, bs2) \<Rightarrow>
               (case dec_sigs bs2 of
                  None \<Rightarrow> Inl DecodeError
                | Some (ss, bs3) \<Rightarrow>
                    Inr (bs3, \<lparr> vl_Round = of_nat r, vl_BlockPartSetID = p,
                                Signatures = ss \<rparr>))))"

text \<open>
  \<open>Bytes\<close> and \<open>NewVoteListFromBytes\<close> as the source has them. A \<open>nil\<close> byte slice is
  the empty list; the \<open>nil\<close> vote list is \<open>None\<close>. The bytes left over are dropped.
\<close>

definition Bytes :: "voteList \<Rightarrow> bytes" where
  "Bytes vl = (case MarshalToBytes vl of Inl err \<Rightarrow> [] | Inr bs \<Rightarrow> bs)"

definition NewVoteListFromBytes :: "bytes \<Rightarrow> voteList option" where
  "NewVoteListFromBytes bs =
     (case UnmarshalFromBytes bs of Inl err \<Rightarrow> None | Inr (rest, vl) \<Rightarrow> Some vl)"

section \<open>IISS accounts (icstate, \<open>Account\<close>)\<close>

text \<open>
  An account holds four amounts behind \<open>*big.Int\<close> pointers and four collections. An
  amount is the integer pointed to, \<open>None\<close> for a \<open>nil\<close> pointer: \<open>newAccount\<close>,
  \<open>Clear\<close> and \<open>Clone\<close> set all four, the bare struct of \<open>newAccountWithTag\<close> has none.
  No method stores one amount's pointer in another field, so each field owns its integer.
  The address is an interface value that may be \<open>nil\<close>.

  The collection types \<open>Unstakes\<close>, \<open>Delegations\<close>, \<open>Bonds\<close>, \<open>Unbonds\<close>, their
  \<open>Clone\<close> and \<open>Equal\<close> methods and \<open>icutils.EqualAddress\<close> are declared in other
  files: the types are type parameters and the functions are the fields of \<open>icstate_ops\<close>.
  \<open>StateAndSnapshot\<close> is embedded from another file as well; of it the account uses the
  read-only flag, which \<open>freeze\<close> sets, \<open>IsReadonly\<close> reads and \<open>checkWritable\<close> refuses
  with a panic.
\<close>

record ('us, 'ds, 'bs, 'ub) Account =
  readonly :: bool
  acc_address :: "Address option"
  stake :: "int option"
  unstakes :: 'us
  delegating :: "int option"
  delegations :: 'ds
  bonding :: "int option"
  unbonding :: "int option"
  bonds :: 'bs
  unbonds :: 'ub

record ('us, 'ds, 'bs, 'ub) icstate_ops =
  EqualAddress :: "Address option \<Rightarrow> Address option \<Rightarrow> bool"
  Unstakes_Clone :: "'us \<Rightarrow> 'us"
  Unstakes_Equal :: "'us \<Rightarrow> 'us \<Rightarrow> bool"
  Delegations_Clone :: "'ds \<Rightarrow> 'ds"
  Delegations_Equal :: "'ds \<Rightarrow> 'ds \<Rightarrow> bool"
  Bonds_Clone :: "'bs \<Rightarrow> 'bs"
  Bonds_Equal :: "'bs \<Rightarrow> 'bs \<Rightarrow> bool"
  Unbonds_Clone :: "'ub \<Rightarrow> 'ub"
  Unbonds_Equal :: "'ub \<Rightarrow> 'ub \<Rightarrow> bool"

text \<open>
  \<open>x.Cmp(y) == 0\<close> on two amounts. \<open>Cmp\<close> first tests whether the two pointers are
  the same, which two \<open>nil\<close> pointers are, and returns 0 then; otherwise it reads both
  operands, and reading a \<open>nil\<close> one is a nil dereference.
\<close>

definition CmpEq :: "int option \<Rightarrow> int option \<Rightarrow> panic + bool" where
  "CmpEq x y =
     (case (x, y) of
        (None, None) \<Rightarrow> Inr True
      | (Some a, Some b) \<Rightarrow> Inr (a = b)
      | _ \<Rightarrow> Inl NilDereference)"

text \<open>
  One operand of the chain of \<open>&&\<close> in \<open>equal\<close>: the operands to the right are only
  evaluated when this one is true.
\<close>

definition andThen :: "panic + bool \<Rightarrow> panic + bool \<Rightarrow> panic + bool" where
  "andThen x rest =
     (case x of Inl p \<Rightarrow> Inl p | Inr b \<Rightarrow> if b then rest else Inr False)"

text \<open>
  \<open>same\<close> says whether receiver and argument are one object (\<open>a == other\<close> on the
  pointers), which the values alone do not tell.
\<close>

definition Account_equal ::
  "('us, 'ds, 'bs, 'ub) icstate_ops \<Rightarrow> bool \<Rightarrow> ('us, 'ds, 'bs, 'ub) Account \<Rightarrow>
     ('us, 'ds, 'bs, 'ub) Account \<Rightarrow> panic + bool" where
  "Account_equal ops same a other =
     (if same then Inr True
      else
        andThen (Inr (EqualAddress ops (acc_address a) (acc_address other)))
       (andThen (CmpEq (stake a) (stake other))
       (andThen (Inr (Unstakes_Equal ops (unstakes a) (unstakes other)))
       (andThen (CmpEq (delegating a) (delegating other))
       (andThen (Inr (Delegations_Equal ops (delegations a) (delegations other)))
       (andThen (CmpEq (bonding a) (bonding other))
       (andThen (CmpEq (unbonding a) (unbonding other))
       (andThen (Inr (Bonds_Equal ops (bonds a) (bonds other)))
                (Inr (Unbonds_Equal ops (unbonds a) (unbonds other)))))))))))"

text \<open>The argument of \<open>Equal\<close> is any \<open>icobject.Impl\<close>: an account or something else.\<close>

datatype ('us, 'ds, 'bs, 'ub) Impl =
    AccountImpl "('us, 'ds, 'bs, 'ub) Account"
  | OtherImpl

definition Account_Equal ::
  "('us, 'ds, 'bs, 'ub) icstate_ops \<Rightarrow> bool \<Rightarrow> ('us, 'ds, 'bs, 'ub) Account \<Rightarrow>
     ('us, 'ds, 'bs, 'ub) Impl \<Rightarrow> panic + bool" where
  "Account_Equal ops same a object =
     (case object of
        OtherImpl \<Rightarrow> Inr False
      | AccountImpl other \<Rightarrow>
          if same then Inr True else Account_equal ops same a other)"

text \<open>
  \<open>new(big.Int).Set(x)\<close> copies the integer \<open>x\<close> points to and dereferences \<open>x\<close>. The
  clone is a new struct: its embedded read-only flag has the zero value.
\<close>

definition Clone ::
  "('us, 'ds, 'bs, 'ub) icstate_ops \<Rightarrow> ('us, 'ds, 'bs, 'ub) Account \<Rightarrow>
     panic + ('us, 'ds, 'bs, 'ub) Account" where
  "Clone ops a =
     (case (stake a, delegating a, bonding a, unbonding a) of
        (Some st, Some dg, Some bg, Some ug) \<Rightarrow>
          Inr \<lparr> readonly = False,
                acc_address = acc_address a,
                stake = Some st,
                unstakes = Unstakes_Clone ops (unstakes a),
                delegating = Some dg,
                delegations = Delegations_Clone ops (delegations a),
                bonding = Some bg,
                unbonding = Some ug,
                bonds = Bonds_Clone ops (bonds a),
                unbonds = Unbonds_Clone ops (unbonds a) \<rparr>
      | _ \<Rightarrow> Inl NilDereference)"

text \<open>
  \<open>newAccountWithTag\<close> returns the bare struct: writable, no address, no amount set,
  every collection \<open>nil\<close>. The tag is not read; the \<open>nil\<close> values of the four
  collection types are arguments.
\<close>

definition newAccountWithTag ::
  "'us \<Rightarrow> 'ds \<Rightarrow> 'bs \<Rightarrow> 'ub \<Rightarrow> ('us, 'ds, 'bs, 'ub) Account" where
  "newAccountWithTag nilUnstakes nilDelegations nilBonds nilUnbonds =
     \<lparr> readonly = False, acc_address = None, stake = None, unstakes = nilUnstakes,
       delegating = None, delegations = nilDelegations, bonding = None, unbonding = None,
       bonds = nilBonds, unbonds = nilUnbonds \<rparr>"

datatype account_error = NegativeStake

text \<open>
  \<open>SetStake\<close>: the argument is an integer; \<open>v.Sign() == -1\<close> is \<open>v < 0\<close>, and
  \<open>a.stake.Set(v)\<close> writes through the pointer \<open>a.stake\<close>. The result is the returned
  error (\<open>None\<close> for \<open>nil\<close>) with the account after the call.
\<close>

definition SetStake ::
  "('us, 'ds, 'bs, 'ub) Account \<Rightarrow> int \<Rightarrow>
     panic + (account_error option \<times> ('us, 'ds, 'bs, 'ub) Account)" where
  "SetStake a v =
     (if readonly a then Inl NotWritable
      else if v < 0 then Inr (Some NegativeStake, a)
      else (case stake a of
              None \<Rightarrow> Inl NilDereference
            | Some old \<Rightarrow> Inr (None, a\<lparr>stake := Some v\<rparr>)))"

section \<open>Concrete instances of the parameters\<close>

text \<open>
  Small stand-ins for the library, for evaluating the definitions on concrete inputs: the
  digest of a payload is the payload, a signature recovers to the key of the same bytes
  unless it is empty, in which case recovery fails, and the address of a key is the key.
\<close>

definition toyCrypto :: crypto where
  "toyCrypto =
     \<lparr> SHA3Sum256 = (\<lambda>bs. bs),
       RecoverPublicKey = (\<lambda>sig h. if sig = [] then None else Some sig),
       NewAccountAddressFromPublicKey = (\<lambda>pk. pk) \<rparr>"

definition toyVoteBytes :: voteByteser where
  "toyVoteBytes h r t b p = b"

text \<open>Three validators with the addresses \<open>[1]\<close>, \<open>[2]\<close> and \<open>[3]\<close>.\<close>

definition threeValidators :: ValidatorList where
  "threeValidators =
     \<lparr> IndexOf = (\<lambda>a. if a = Some [1] then 0 else if a = Some [2] then 1
                      else if a = Some [3] then 2 else - 1),
       Len = 3 \<rparr>"

definition blockAt :: "64 word \<Rightarrow> Block" where
  "blockAt h = \<lparr> blk_Height = h, blk_ID = [7], NextValidators = threeValidators \<rparr>"

definition votes :: "Signature list \<Rightarrow> voteList" where
  "votes sigs = \<lparr> vl_Round = 0, vl_BlockPartSetID = None, Signatures = sigs \<rparr>"

text \<open>A base whose signature was replaced after a key had been cached.\<close>

definition staleBase :: signedBase where
  "staleBase =
     \<lparr> byteser = [7], Signature = [], cached_hash = Some [7], cached_publicKey = Some [1] \<rparr>"

text \<open>
  A base in the second round of \<open>Verify\<close> on two valid signatures: the first signer's
  key is cached, the signature is the second signer's.
\<close>

definition secondRoundBase :: signedBase where
  "secondRoundBase =
     \<lparr> byteser = [7], Signature = [2], cached_hash = Some [7], cached_publicKey = Some [1] \<rparr>"

definition freshBase :: signedBase where
  "freshBase =
     \<lparr> byteser = [7], Signature = [1], cached_hash = None, cached_publicKey = None \<rparr>"

definition voteOf :: "bytes \<Rightarrow> Signature \<Rightarrow> voteMessage" where
  "voteOf blockID sig =
     \<lparr> byteser = blockID, Signature = sig, cached_hash = None, cached_publicKey = None,
       Height = 10, Round = 0, Type = voteTypePrecommit, BlockID = blockID,
       BlockPartSetID = None \<rparr>"

text \<open>Collections as lists of numbers, cloned by copying and compared by equality.\<close>

definition listOps :: "(nat list, nat list, nat list, nat list) icstate_ops" where
  "listOps =
     \<lparr> EqualAddress = (\<lambda>x y. x = y),
       Unstakes_Clone = (\<lambda>x. x), Unstakes_Equal = (\<lambda>x y. x = y),
       Delegations_Clone = (\<lambda>x. x), Delegations_Equal = (\<lambda>x y. x = y),
       Bonds_Clone = (\<lambda>x. x), Bonds_Equal = (\<lambda>x y. x = y),
       Unbonds_Clone = (\<lambda>x. x), Unbonds_Equal = (\<lambda>x y. x = y) \<rparr>"

definition bareAccount :: "(nat list, nat list, nat list, nat list) Account" where
  "bareAccount = newAccountWithTag [] [] [] []"

definition someAccount :: "(nat list, nat list, nat list, nat list) Account" where
  "someAccount =
     \<lparr> readonly = False, acc_address = Some [1], stake = Some 100, unstakes = [5],
       delegating = Some 30, delegations = [30], bonding = Some 20, unbonding = Some 10,
       bonds = [20], unbonds = [10] \<rparr>"

section \<open>Properties of the signed-message base\<close>

lemmas toy_defs = blockAt_def votes_def threeValidators_def toyCrypto_def toyVoteBytes_def
  voteTemplate_def address_def publicKey_def hash_def twoThirds_def Let_def resolves_def
  signed_divide_int_def

lemma hash_keeps_signature: "Signature (snd (hash c s)) = Signature s"
  by (cases "cached_hash s") (simp_all add: hash_def Let_def)

text \<open>
  C8. \<open>hash\<close> is idempotent. After a first call the digest is stored in the base and is
  the value returned; a further call returns the same bytes and leaves the base as it is,
  whatever digest function it is given, so nothing is computed again. The payload is not
  touched by \<open>hash\<close>. With an empty cache the value is the digest of the payload; with a
  filled cache the call returns the cached bytes and changes nothing.
\<close>

theorem hash_idempotent:
  "hash c' (snd (hash c s)) = hash c s \<and>
   cached_hash (snd (hash c s)) = Some (fst (hash c s)) \<and>
   byteser (snd (hash c s)) = byteser s \<and>
   (cached_hash s = None \<longrightarrow> fst (hash c s) = SHA3Sum256 c (byteser s)) \<and>
   (\<forall>h. cached_hash s = Some h \<longrightarrow> hash c s = (h, s))"
  by (cases "cached_hash s") (simp_all add: hash_def Let_def)

theorem hash_idempotent_witness:
  "cached_hash freshBase = None \<and> fst (hash toyCrypto freshBase) = [7] \<and>
   hash toyCrypto (snd (hash toyCrypto freshBase)) = hash toyCrypto freshBase \<and>
   cached_hash staleBase = Some [7] \<and> hash toyCrypto staleBase = ([7], staleBase)"
  using hash_idempotent [of toyCrypto toyCrypto freshBase]
    hash_idempotent [of toyCrypto toyCrypto staleBase]
  by (simp add: freshBase_def staleBase_def toyCrypto_def)

text \<open>
  C7, as stated, fails on a base whose signature was replaced after a key had been
  cached: recovery from the signature and the hash fails, yet \<open>publicKey\<close> returns the
  cached key and \<open>verify\<close> returns no error.
\<close>

theorem publicKey_stale_counterexample:
  "RecoverPublicKey toyCrypto (Signature staleBase) (fst (hash toyCrypto staleBase)) = None \<and>
   fst (publicKey toyCrypto staleBase) = Some [1] \<and>
   fst (verify toyCrypto staleBase) = Inr ()"
  by (simp add: staleBase_def toyCrypto_def publicKey_def verify_def hash_def)

text \<open>
  C7, amended. \<open>publicKey\<close> returns none exactly when recovery from the signature and
  the hash fails, for every base that has no cached key or whose present signature
  recovers to some key. For every base, \<open>address\<close> is none exactly when \<open>publicKey\<close>
  is none, and \<open>verify\<close> returns the bad-signature error exactly when \<open>publicKey\<close> is
  none and no error otherwise. All three are total: none of them panics.
\<close>

theorem signedBase_results:
  "((cached_publicKey s = None \<or>
       RecoverPublicKey c (Signature s) (fst (hash c s)) \<noteq> None) \<longrightarrow>
      (fst (publicKey c s) = None \<longleftrightarrow>
         RecoverPublicKey c (Signature s) (fst (hash c s)) = None)) \<and>
   (fst (address c s) = None \<longleftrightarrow> fst (publicKey c s) = None) \<and>
   (fst (verify c s) = Inl BadSignature \<longleftrightarrow> fst (publicKey c s) = None) \<and>
   (fst (verify c s) = Inr () \<longleftrightarrow> fst (publicKey c s) \<noteq> None)"
  by (cases "cached_publicKey s")
     (auto simp: publicKey_def address_def verify_def Let_def case_prod_beta
           hash_keeps_signature split: option.splits)

theorem signedBase_results_witness:
  "cached_publicKey freshBase = None \<and>
   fst (publicKey toyCrypto freshBase) = Some [1] \<and>
   fst (address toyCrypto freshBase) \<noteq> None \<and>
   fst (verify toyCrypto freshBase) = Inr () \<and>
   fst (publicKey toyCrypto (freshBase\<lparr>Signature := []\<rparr>)) = None \<and>
   fst (address toyCrypto (freshBase\<lparr>Signature := []\<rparr>)) = None \<and>
   fst (verify toyCrypto (freshBase\<lparr>Signature := []\<rparr>)) = Inl BadSignature \<and>
   cached_publicKey secondRoundBase = Some [1] \<and>
   RecoverPublicKey toyCrypto (Signature secondRoundBase)
     (fst (hash toyCrypto secondRoundBase)) = Some [2] \<and>
   fst (publicKey toyCrypto secondRoundBase) = Some [1] \<and>
   fst (verify toyCrypto secondRoundBase) = Inr ()"
  using signedBase_results [of freshBase toyCrypto]
    signedBase_results [of "freshBase\<lparr>Signature := []\<rparr>" toyCrypto]
    signedBase_results [of secondRoundBase toyCrypto]
  by (simp add: freshBase_def secondRoundBase_def toyCrypto_def hash_def publicKey_def
        verify_def Let_def)

text \<open>
  The condition is the weakest one: where a key is cached and the present signature
  recovers to none, \<open>publicKey\<close> is not none although recovery fails.
\<close>

lemma publicKey_stale:
  assumes "cached_publicKey s \<noteq> None"
    and "RecoverPublicKey c (Signature s) (fst (hash c s)) = None"
  shows "fst (publicKey c s) \<noteq> None"
  using assms by (auto simp: publicKey_def)

section \<open>Properties of \<open>Verify\<close>\<close>

text \<open>
  C3. At height 1, \<open>Verify\<close> succeeds exactly when the signature list is empty, and a
  non-empty list fails with the unexpected-voters error. The result is the same under any
  other block of height 1, library and payload function: neither the validator list nor
  the threshold takes part.
\<close>

theorem Verify_height_one:
  assumes "blk_Height block = 1"
  shows "(Verify c vb vl block = Inr () \<longleftrightarrow> Signatures vl = []) \<and>
         (Signatures vl \<noteq> [] \<longrightarrow> Verify c vb vl block = Inl UnexpectedVoters) \<and>
         (\<forall>c' vb' block'. blk_Height block' = 1 \<longrightarrow>
             Verify c' vb' vl block' = Verify c vb vl block)"
  using assms by (simp add: Verify_def)

theorem Verify_height_one_witness:
  "blk_Height (blockAt 1) = 1 \<and>
   Verify toyCrypto toyVoteBytes (votes []) (blockAt 1) = Inr () \<and>
   Verify toyCrypto toyVoteBytes (votes [[1]]) (blockAt 1) = Inl UnexpectedVoters"
  using Verify_height_one [of "blockAt 1" toyCrypto toyVoteBytes "votes []"]
    Verify_height_one [of "blockAt 1" toyCrypto toyVoteBytes "votes [[1]]"]
  by (simp add: blockAt_def votes_def)

text \<open>
  Go's \<open>validators.Len() * 2 / 3\<close> is the floor of two thirds of the count as long as the
  doubled count fits a signed 64-bit number.
\<close>

lemma wrapped_double_third:
  fixes k :: int
  assumes "0 \<le> k" "k < 4611686018427387904"
  shows "signed_take_bit 63 (k * 2 mod 18446744073709551616) sdiv 3 = 2 * k div 3"
proof -
  have "k * 2 mod 18446744073709551616 = k * 2"
    using assms by (intro mod_pos_pos_trivial) linarith+
  moreover have "signed_take_bit 63 (k * 2) = k * 2"
    using assms by (intro signed_take_bit_int_eq_self) simp_all
  moreover have "(k * 2) sdiv 3 = (k * 2) div 3"
    using assms by (simp add: signed_divide_int_def sgn_if)
  ultimately show ?thesis
    by (simp add: mult.commute)
qed

lemma twoThirds_small:
  assumes "Len validators < 4611686018427387904"
  shows "twoThirds validators = int (2 * unat (Len validators) div 3)"
proof -
  let ?n = "Len validators"
  have n: "uint ?n < 4611686018427387904"
    using assms by (simp add: word_less_alt)
  have "sint (?n * 2) = signed_take_bit 63 (uint ?n * 2 mod 18446744073709551616)"
    by (simp add: sint_uint uint_word_ariths)
  then have "twoThirds validators = 2 * uint ?n div 3"
    using wrapped_double_third [of "uint ?n"] n by (simp add: twoThirds_def)
  moreover have "int (2 * unat ?n div 3) = (2 * uint ?n) div 3"
    by (simp add: zdiv_int)
  ultimately show ?thesis
    by simp
qed

text \<open>One round of the loop on a signature that resolves: it passes and keeps the invariant.\<close>

lemma address_step:
  assumes "loopInv c validators payload msg" "resolves c validators payload sig"
  shows "0 \<le> IndexOf validators (fst (address c (msg\<lparr>Signature := sig\<rparr>))) \<and>
         loopInv c validators payload (snd (address c (msg\<lparr>Signature := sig\<rparr>)))"
  using assms
  by (cases "cached_publicKey msg"; cases "cached_hash msg")
     (auto simp: loopInv_def resolves_def address_def publicKey_def hash_def Let_def
           split: option.splits)

lemma verifyLoop_all_resolve:
  assumes "loopInv c validators payload msg"
    and "\<forall>sig \<in> set sigs. resolves c validators payload sig"
  shows "\<exists>msg'. verifyLoop c validators msg i sigs = Inr msg'"
  using assms
proof (induction sigs arbitrary: msg i)
  case Nil
  then show ?case by simp
next
  case (Cons sig sigs)
  from Cons.prems
  have st: "0 \<le> IndexOf validators (fst (address c (msg\<lparr>Signature := sig\<rparr>)))"
    and inv: "loopInv c validators payload (snd (address c (msg\<lparr>Signature := sig\<rparr>)))"
    using address_step [of c validators payload msg sig] by simp_all
  from Cons.IH [OF inv] Cons.prems(2) st show ?case
    by (simp add: Let_def case_prod_beta)
qed

lemma template_inv:
  "loopInv c validators (byteser (voteTemplate vb vl block)) (voteTemplate vb vl block)"
  by (simp add: loopInv_def voteTemplate_def)

text \<open>
  C1. For a block whose height is not 1 (in particular above 1) and a vote list whose
  signatures all resolve to addresses that \<open>block.NextValidators()\<close> finds, \<open>Verify\<close>
  succeeds exactly when the number of signatures is above the floor of two thirds of the
  validator count, and fails with the insufficient-votes error otherwise. The validator
  count is below \<open>2^62\<close>, as the length of any list in memory is, so that doubling it
  does not wrap.
\<close>

theorem Verify_quorum:
  assumes "blk_Height block \<noteq> 1"
    and "\<forall>sig \<in> set (Signatures vl).
           resolves c (NextValidators block) (byteser (voteTemplate vb vl block)) sig"
    and "Len (NextValidators block) < 4611686018427387904"
  shows "Verify c vb vl block =
           (if 2 * unat (Len (NextValidators block)) div 3 < length (Signatures vl)
            then Inr ()
            else Inl (InsufficientVotes (length (Signatures vl)) (Len (NextValidators block))))"
proof -
  obtain msg' where
    "verifyLoop c (NextValidators block) (voteTemplate vb vl block) 0 (Signatures vl) = Inr msg'"
    using verifyLoop_all_resolve [OF template_inv assms(2)] by blast
  then show ?thesis
    using assms(1) twoThirds_small [OF assms(3)]
    by (simp add: Verify_def Let_def)
qed

theorem Verify_quorum_witness:
  "blk_Height (blockAt 10) \<noteq> 1 \<and>
   resolves toyCrypto (NextValidators (blockAt 10))
     (byteser (voteTemplate toyVoteBytes (votes [[1], [2], [3]]) (blockAt 10))) [1] \<and>
   resolves toyCrypto (NextValidators (blockAt 10))
     (byteser (voteTemplate toyVoteBytes (votes [[1], [2], [3]]) (blockAt 10))) [2] \<and>
   resolves toyCrypto (NextValidators (blockAt 10))
     (byteser (voteTemplate toyVoteBytes (votes [[1], [2], [3]]) (blockAt 10))) [3] \<and>
   Len (NextValidators (blockAt 10)) < 4611686018427387904 \<and>
   Verify toyCrypto toyVoteBytes (votes [[1], [2], [3]]) (blockAt 10) = Inr () \<and>
   Verify toyCrypto toyVoteBytes (votes [[1], [2]]) (blockAt 10) = Inl (InsufficientVotes 2 3)"
  using Verify_quorum [of "blockAt 10" "votes [[1], [2], [3]]" toyCrypto toyVoteBytes]
    Verify_quorum [of "blockAt 10" "votes [[1], [2]]" toyCrypto toyVoteBytes]
  by (simp add: toy_defs)

text \<open>
  C2. With three validators the threshold is 2. A list that holds the signature of the
  first validator three times has one signer, and \<open>Verify\<close> accepts it: no round of the
  loop looks at the indices found before.
\<close>

theorem Verify_counts_duplicates:
  "Verify toyCrypto toyVoteBytes (votes [[1], [1], [1]]) (blockAt 10) = Inr () \<and>
   twoThirds (NextValidators (blockAt 10)) = 2 \<and>
   card (set (Signatures (votes [[1], [1], [1]]))) = 1"
  by (simp add: Verify_def toy_defs)

text \<open>
  Once a key is cached in the message, no later signature is looked at: every round gets
  the cached key's address, and the loop passes whatever the remaining signatures are.
  So a list whose first signature resolves is judged by its length alone.
\<close>

lemma verifyLoop_cached:
  assumes "cached_publicKey msg = Some pk"
    and "0 \<le> IndexOf validators (Some (NewAccountAddressFromPublicKey c pk))"
  shows "\<exists>msg'. verifyLoop c validators msg i sigs = Inr msg'"
  using assms
proof (induction sigs arbitrary: msg i)
  case Nil
  then show ?case by simp
next
  case (Cons sig sigs)
  have step: "address c (msg\<lparr>Signature := sig\<rparr>) =
      (Some (NewAccountAddressFromPublicKey c pk), msg\<lparr>Signature := sig\<rparr>)"
    using Cons.prems(1) by (simp add: address_def publicKey_def)
  have "\<exists>msg'. verifyLoop c validators (msg\<lparr>Signature := sig\<rparr>) (Suc i) sigs = Inr msg'"
    using Cons.prems by (intro Cons.IH) simp_all
  with step Cons.prems(2) show ?case
    by (simp add: Let_def)
qed

lemma Verify_first_signature_decides:
  assumes "blk_Height block \<noteq> 1"
    and "Signatures vl = sig # others"
    and "resolves c (NextValidators block) (byteser (voteTemplate vb vl block)) sig"
    and "Len (NextValidators block) < 4611686018427387904"
  shows "Verify c vb vl block =
           (if 2 * unat (Len (NextValidators block)) div 3 < length (Signatures vl)
            then Inr ()
            else Inl (InsufficientVotes (length (Signatures vl)) (Len (NextValidators block))))"
proof -
  let ?msg = "voteTemplate vb vl block"
  let ?vals = "NextValidators block"
  from assms(3) obtain pk where
    rec: "RecoverPublicKey c sig (SHA3Sum256 c (byteser ?msg)) = Some pk"
    and found: "0 \<le> IndexOf ?vals (Some (NewAccountAddressFromPublicKey c pk))"
    by (auto simp: resolves_def split: option.splits)
  have first: "address c (?msg\<lparr>Signature := sig\<rparr>) =
      (Some (NewAccountAddressFromPublicKey c pk),
       ?msg\<lparr>Signature := sig, cached_hash := Some (SHA3Sum256 c (byteser ?msg)),
             cached_publicKey := Some pk\<rparr>)"
    using rec by (simp add: address_def publicKey_def hash_def Let_def voteTemplate_def)
  have "\<exists>msg'. verifyLoop c ?vals
          (?msg\<lparr>Signature := sig, cached_hash := Some (SHA3Sum256 c (byteser ?msg)),
                cached_publicKey := Some pk\<rparr>) (Suc 0) others = Inr msg'"
    using found by (intro verifyLoop_cached [where pk = pk]) simp_all
  with first found
  have "\<exists>msg'. verifyLoop c ?vals ?msg 0 (Signatures vl) = Inr msg'"
    by (simp add: assms(2) Let_def)
  then show ?thesis
    using assms(1) twoThirds_small [OF assms(4)]
    by (auto simp: Verify_def Let_def)
qed

text \<open>A first signature that the list does not find is refused, at index 0.\<close>

lemma Verify_first_signature_bad:
  assumes "blk_Height block \<noteq> 1"
    and "Signatures vl = sig # others"
    and "IndexOf (NextValidators block)
           (fst (address c ((voteTemplate vb vl block)\<lparr>Signature := sig\<rparr>))) < 0"
  shows "\<exists>a. Verify c vb vl block = Inl (BadVoter a 0)"
  using assms by (simp add: Verify_def Let_def case_prod_beta)

text \<open>
  C4. With three validators, a list whose first signature is the first validator's and
  whose second recovers to no validator and whose third recovers to no key is accepted:
  the key cached in the first round answers for the later signatures. The same foreign
  signature in first place is refused.
\<close>

theorem Verify_accepts_bad_voter:
  "Verify toyCrypto toyVoteBytes (votes [[1], [9], []]) (blockAt 10) = Inr () \<and>
   \<not> resolves toyCrypto (NextValidators (blockAt 10))
        (byteser (voteTemplate toyVoteBytes (votes [[1], [9], []]) (blockAt 10))) [9] \<and>
   RecoverPublicKey toyCrypto [] (SHA3Sum256 toyCrypto
        (byteser (voteTemplate toyVoteBytes (votes [[1], [9], []]) (blockAt 10)))) = None \<and>
   Verify toyCrypto toyVoteBytes (votes [[9], [1], [1]]) (blockAt 10) = Inl (BadVoter (Some [9]) 0)"
  by (simp add: Verify_def toy_defs)

section \<open>Properties of \<open>newVoteList\<close>\<close>

text \<open>
  The loop from index \<open>i\<close>: when every message from \<open>i\<close> on carries the block
  identifier, the signatures from \<open>i\<close> on are stored in batch order; when one does not,
  the loop panics.
\<close>

lemma newVoteListLoop_agree:
  assumes "\<forall>j. i \<le> j \<and> j < length msgs \<longrightarrow> BlockID (msgs ! j) = blockID"
    and "length (Signatures vl) = length msgs"
  shows "newVoteListLoop msgs blockID i vl =
           Inr (vl\<lparr>Signatures := take i (Signatures vl) @ map Signature (drop i msgs)\<rparr>)"
  using assms
proof (induction msgs blockID i vl rule: newVoteListLoop.induct)
  case (1 msgs blockID i vl)
  show ?case
  proof (cases "i < length msgs")
    case False
    with "1.prems" show ?thesis
      by (subst newVoteListLoop.simps) simp
  next
    case True
    let ?vl1 = "vl\<lparr>Signatures := (Signatures vl)[i := Signature (msgs ! i)]\<rparr>"
    have same: "blockID = BlockID (msgs ! i)"
      using True "1.prems"(1) by auto
    have "newVoteListLoop msgs blockID (Suc i) ?vl1 =
            Inr (?vl1\<lparr>Signatures :=
                   take (Suc i) (Signatures ?vl1) @ map Signature (drop (Suc i) msgs)\<rparr>)"
      using True same "1.prems" by (intro "1.IH") simp_all
    moreover have "take (Suc i) (Signatures ?vl1) = take i (Signatures vl) @ [Signature (msgs ! i)]"
      using True "1.prems"(2) by (simp add: take_Suc_conv_app_nth)
    moreover have "drop i msgs = msgs ! i # drop (Suc i) msgs"
      using True by (simp add: Cons_nth_drop_Suc)
    ultimately show ?thesis
      using True same by (subst newVoteListLoop.simps) (simp add: Let_def)
  qed
qed

lemma newVoteListLoop_differ:
  assumes "\<exists>j. i \<le> j \<and> j < length msgs \<and> BlockID (msgs ! j) \<noteq> blockID"
  shows "\<exists>other. newVoteListLoop msgs blockID i vl = Inl (BadBlockID blockID other) \<and>
           other \<noteq> blockID"
  using assms
proof (induction msgs blockID i vl rule: newVoteListLoop.induct)
  case (1 msgs blockID i vl)
  from "1.prems" have lt: "i < length msgs" by auto
  show ?case
  proof (cases "blockID = BlockID (msgs ! i)")
    case False
    with lt show ?thesis
      by (subst newVoteListLoop.simps) (auto simp: Let_def)
  next
    case True
    with "1.prems" have "\<exists>j. Suc i \<le> j \<and> j < length msgs \<and> BlockID (msgs ! j) \<noteq> blockID"
      by (metis Suc_leI le_neq_implies_less)
    moreover have "\<not> blockID \<noteq> BlockID (msgs ! i)"
      using True by simp
    ultimately have "\<exists>other. newVoteListLoop msgs blockID (Suc i)
          (vl\<lparr>Signatures := (Signatures vl)[i := Signature (msgs ! i)]\<rparr>) =
        Inl (BadBlockID blockID other) \<and> other \<noteq> blockID"
      using lt by (intro "1.IH") simp_all
    with lt True show ?thesis
      by (subst newVoteListLoop.simps) (simp add: Let_def)
  qed
qed

text \<open>
  C6. For a non-empty batch: if some message's block identifier differs from the first
  message's, \<open>newVoteList\<close> panics; if all agree, it returns the vote list with the
  first message's round and block part-set identifier and the messages' signatures in
  batch order.
\<close>

theorem newVoteList_batch:
  assumes "msgs \<noteq> []"
  shows "((\<exists>m \<in> set msgs. BlockID m \<noteq> BlockID (hd msgs)) \<longrightarrow>
            (\<exists>other. newVoteList msgs = Inl (BadBlockID (BlockID (hd msgs)) other))) \<and>
         ((\<forall>m \<in> set msgs. BlockID m = BlockID (hd msgs)) \<longrightarrow>
            newVoteList msgs =
              Inr \<lparr> vl_Round = Round (hd msgs),
                    vl_BlockPartSetID = BlockPartSetID (hd msgs),
                    Signatures = map Signature msgs \<rparr>)"
proof (intro conjI impI)
  have hd0: "msgs ! 0 = hd msgs"
    using assms by (simp add: hd_conv_nth)
  {
    assume "\<exists>m \<in> set msgs. BlockID m \<noteq> BlockID (hd msgs)"
    then have "\<exists>j. 0 \<le> j \<and> j < length msgs \<and> BlockID (msgs ! j) \<noteq> BlockID (hd msgs)"
      by (metis in_set_conv_nth le0)
    from newVoteListLoop_differ [OF this]
    show "\<exists>other. newVoteList msgs = Inl (BadBlockID (BlockID (hd msgs)) other)"
      using assms hd0 by (simp add: newVoteList_def Let_def) blast
  }
  {
    assume "\<forall>m \<in> set msgs. BlockID m = BlockID (hd msgs)"
    then have "\<forall>j. 0 \<le> j \<and> j < length msgs \<longrightarrow> BlockID (msgs ! j) = BlockID (hd msgs)"
      by simp
    from newVoteListLoop_agree [OF this]
    show "newVoteList msgs =
            Inr \<lparr> vl_Round = Round (hd msgs), vl_BlockPartSetID = BlockPartSetID (hd msgs),
                  Signatures = map Signature msgs \<rparr>"
      using assms hd0 by (simp add: newVoteList_def Let_def emptyVoteList_def)
  }
qed

theorem newVoteList_batch_witness:
  "[voteOf [7] [1], voteOf [7] [2]] \<noteq> [] \<and>
   newVoteList [voteOf [7] [1], voteOf [7] [2]] =
     Inr \<lparr> vl_Round = 0, vl_BlockPartSetID = None, Signatures = [[1], [2]] \<rparr> \<and>
   (\<exists>other. newVoteList [voteOf [7] [1], voteOf [8] [2]] = Inl (BadBlockID [7] other))"
  using newVoteList_batch [of "[voteOf [7] [1], voteOf [7] [2]]"]
    newVoteList_batch [of "[voteOf [7] [1], voteOf [8] [2]]"]
  by (simp add: voteOf_def)

section \<open>Properties of the serialization\<close>

text \<open>Four base-256 digits and the number below \<open>2^32\<close> they write determine each other.\<close>

lemma split_digit:
  fixes k d :: nat
  assumes "d < 256" "n = k * 256 + d"
  shows "n div 256 = k \<and> n mod 256 = d"
  using assms by simp

lemma digits_u32:
  fixes n :: nat
  assumes "n < 4294967296"
  shows "(n div 16777216 mod 256) * 16777216 + (n div 65536 mod 256) * 65536 +
         (n div 256 mod 256) * 256 + n mod 256 = n"
proof -
  define q1 where "q1 = n div 256"
  define q2 where "q2 = q1 div 256"
  define q3 where "q3 = q2 div 256"
  have d2: "n div 65536 = q2"
    unfolding q2_def q1_def by (simp add: div_mult2_eq)
  have d3: "n div 16777216 = q3"
    unfolding q3_def q2_def q1_def by (simp add: div_mult2_eq)
  have "q3 < 256"
    using assms unfolding d3 [symmetric] by simp
  then have m3: "q3 mod 256 = q3"
    by simp
  have e1: "n = q1 * 256 + n mod 256"
    unfolding q1_def by simp
  have e2: "q1 = q2 * 256 + q1 mod 256"
    unfolding q2_def by simp
  have e3: "q2 = q3 * 256 + q2 mod 256"
    unfolding q3_def by simp
  have "q3 * 16777216 + (q2 mod 256) * 65536 + (q1 mod 256) * 256 + n mod 256 = n"
    using e1 e2 e3 by linarith
  then show ?thesis
    by (simp add: d2 d3 m3 q1_def [symmetric])
qed

lemma dec_enc_u32:
  assumes "n < 4294967296"
  shows "dec_u32 (enc_u32 n @ rest) = Some (n, rest)"
proof -
  have "n div 16777216 mod 256 = n div 16777216"
    using assms by simp
  with digits_u32 [OF assms] show ?thesis
    by (simp add: enc_u32_def unat_of_nat)
qed

lemma digits_u32_unique:
  fixes a b c d :: nat
  assumes "a < 256" "b < 256" "c < 256" "d < 256"
    and "n = a * 16777216 + b * 65536 + c * 256 + d"
  shows "n < 4294967296 \<and> n div 16777216 mod 256 = a \<and> n div 65536 mod 256 = b \<and>
         n div 256 mod 256 = c \<and> n mod 256 = d"
proof -
  have "n = (a * 65536 + b * 256 + c) * 256 + d"
    using assms(5) by (simp add: algebra_simps)
  from split_digit [OF assms(4) this]
  have q1: "n div 256 = a * 65536 + b * 256 + c" and r1: "n mod 256 = d"
    by simp_all
  have "n div 256 = (a * 256 + b) * 256 + c"
    unfolding q1 by (simp add: algebra_simps)
  from split_digit [OF assms(3) this]
  have q2: "n div 256 div 256 = a * 256 + b" and r2: "n div 256 mod 256 = c"
    by simp_all
  from split_digit [OF assms(2) q2]
  have q3: "n div 256 div 256 div 256 = a" and r3: "n div 256 div 256 mod 256 = b"
    by simp_all
  have d2: "n div 65536 = n div 256 div 256"
    by (simp add: div_mult2_eq)
  have d3: "n div 16777216 = n div 256 div 256 div 256"
    by (simp add: div_mult2_eq)
  have "n < 4294967296"
    using assms by linarith
  then show ?thesis
    using assms(1) by (simp add: d2 d3 q3 r3 r2 r1)
qed

lemma byte_lt: "unat (a :: 8 word) < 256"
  using unsigned_less [of a] by simp

lemma dec_u32_sound:
  assumes "dec_u32 bs = Some (n, rest)"
  shows "n < 4294967296 \<and> bs = enc_u32 n @ rest"
proof -
  from assms obtain a b c d where bs: "bs = a # b # c # d # rest"
    and n: "n = unat a * 16777216 + unat b * 65536 + unat c * 256 + unat d"
    by (cases bs rule: dec_u32.cases) auto
  from digits_u32_unique [OF byte_lt byte_lt byte_lt byte_lt n]
  show ?thesis
    by (simp add: bs enc_u32_def)
qed


lemma dec_enc_bytes:
  assumes "enc_bytes x = Some e"
  shows "dec_bytes (e @ rest) = Some (x, rest)"
  using assms by (auto simp: enc_bytes_def dec_bytes_def dec_enc_u32 split: if_splits)

lemma dec_bytes_sound:
  assumes "dec_bytes bs = Some (x, rest)"
  shows "\<exists>e. enc_bytes x = Some e \<and> bs = e @ rest"
proof -
  from assms obtain n r where d: "dec_u32 bs = Some (n, r)" and le: "n \<le> length r"
    and x: "x = take n r" and rest: "rest = drop n r"
    by (auto simp: dec_bytes_def split: option.splits if_splits)
  from dec_u32_sound [OF d] have n: "n < 4294967296" and bs: "bs = enc_u32 n @ r"
    by simp_all
  have "length x = n"
    using le x by simp
  moreover have "r = x @ rest"
    using x rest by simp
  ultimately show ?thesis
    using n bs by (simp add: enc_bytes_def)
qed

lemma dec_enc_psid:
  assumes "enc_psid p = Some e"
  shows "dec_psid (e @ rest) = Some (p, rest)"
  using assms
  by (cases p) (auto simp: enc_psid_def dec_enc_bytes split: option.splits)

lemma dec_psid_sound:
  assumes "dec_psid bs = Some (p, rest)"
  shows "\<exists>e. enc_psid p = Some e \<and> bs = e @ rest"
proof (cases bs)
  case Nil
  with assms show ?thesis by simp
next
  case (Cons t r)
  show ?thesis
  proof (cases "t = 0")
    case True
    with assms Cons show ?thesis
      by (simp add: enc_psid_def)
  next
    case False
    with assms Cons obtain i where t: "t = 1" and d: "dec_bytes r = Some (i, rest)"
      and p: "p = Some i"
      by (auto split: if_splits option.splits)
    from dec_bytes_sound [OF d] t p Cons show ?thesis
      by (auto simp: enc_psid_def)
  qed
qed

lemma dec_enc_items:
  assumes "enc_items xs = Some es"
  shows "dec_items (length xs) (es @ rest) = Some (xs, rest)"
  using assms
proof (induction xs arbitrary: es)
  case Nil
  then show ?case by simp
next
  case (Cons x xs)
  from Cons.prems obtain e es' where e: "enc_bytes x = Some e"
    and es': "enc_items xs = Some es'" and es: "es = e @ es'"
    by (auto split: option.splits)
  from dec_enc_bytes [OF e, of "es' @ rest"] Cons.IH [OF es'] es show ?case
    by simp
qed

lemma dec_items_sound:
  assumes "dec_items n bs = Some (xs, rest)"
  shows "length xs = n \<and> (\<exists>es. enc_items xs = Some es \<and> bs = es @ rest)"
  using assms
proof (induction n arbitrary: bs xs)
  case 0
  then show ?case by simp
next
  case (Suc n)
  from Suc.prems obtain x r ys where d: "dec_bytes bs = Some (x, r)"
    and ds: "dec_items n r = Some (ys, rest)" and xs: "xs = x # ys"
    by (auto split: option.splits)
  from dec_bytes_sound [OF d] obtain e where e: "enc_bytes x = Some e" and bs: "bs = e @ r"
    by blast
  from Suc.IH [OF ds] obtain es where len: "length ys = n"
    and es: "enc_items ys = Some es" and r: "r = es @ rest"
    by blast
  show ?case
    using e es len xs bs r by simp
qed

lemma dec_enc_sigs:
  assumes "enc_sigs xs = Some e"
  shows "dec_sigs (e @ rest) = Some (xs, rest)"
  using assms
  by (auto simp: enc_sigs_def dec_sigs_def dec_enc_u32 dec_enc_items
           split: if_splits option.splits)

lemma dec_sigs_sound:
  assumes "dec_sigs bs = Some (xs, rest)"
  shows "\<exists>e. enc_sigs xs = Some e \<and> bs = e @ rest"
proof -
  from assms obtain n r where d: "dec_u32 bs = Some (n, r)"
    and ds: "dec_items n r = Some (xs, rest)"
    by (auto simp: dec_sigs_def split: option.splits)
  from dec_u32_sound [OF d] have n: "n < 4294967296" and bs: "bs = enc_u32 n @ r"
    by simp_all
  from dec_items_sound [OF ds] obtain es where "length xs = n"
    and "enc_items xs = Some es" and "r = es @ rest"
    by blast
  then show ?thesis
    using n bs by (simp add: enc_sigs_def)
qed

lemma round_bound: "unat (r :: 32 word) < 4294967296"
  using unsigned_less [of r] by simp

lemma Unmarshal_Marshal:
  assumes "MarshalToBytes vl = Inr bs"
  shows "UnmarshalFromBytes (bs @ rest) = Inr (rest, vl)"
proof -
  from assms obtain p ss where p: "enc_psid (vl_BlockPartSetID vl) = Some p"
    and ss: "enc_sigs (Signatures vl) = Some ss"
    and bs: "bs = enc_u32 (unat (vl_Round vl)) @ p @ ss"
    by (auto simp: MarshalToBytes_def split: option.splits)
  show ?thesis
    using dec_enc_u32 [OF round_bound, of "vl_Round vl" "p @ ss @ rest"]
      dec_enc_psid [OF p, of "ss @ rest"] dec_enc_sigs [OF ss, of rest]
    by (simp add: UnmarshalFromBytes_def bs)
qed

lemma Unmarshal_sound:
  assumes "UnmarshalFromBytes bs = Inr (rest, vl)"
  shows "\<exists>e. MarshalToBytes vl = Inr e \<and> bs = e @ rest"
proof -
  from assms obtain r bs1 p bs2 ss where d1: "dec_u32 bs = Some (r, bs1)"
    and d2: "dec_psid bs1 = Some (p, bs2)" and d3: "dec_sigs bs2 = Some (ss, rest)"
    and vl: "vl = \<lparr> vl_Round = of_nat r, vl_BlockPartSetID = p, Signatures = ss \<rparr>"
    by (auto simp: UnmarshalFromBytes_def split: option.splits)
  from dec_u32_sound [OF d1] have r: "r < 4294967296" and bs: "bs = enc_u32 r @ bs1"
    by simp_all
  from dec_psid_sound [OF d2] obtain ep where ep: "enc_psid p = Some ep" "bs1 = ep @ bs2"
    by blast
  from dec_sigs_sound [OF d3] obtain es where es: "enc_sigs ss = Some es" "bs2 = es @ rest"
    by blast
  have "unat (of_nat r :: 32 word) = r"
    using r by (simp add: unat_of_nat)
  then show ?thesis
    using ep es bs by (simp add: MarshalToBytes_def vl)
qed

text \<open>
  C5. If serializing a vote list succeeds, \<open>Bytes\<close> returns the serialization and
  \<open>NewVoteListFromBytes\<close> of it is a vote list with the same round, block part-set
  identifier and signature sequence. \<open>NewVoteListFromBytes\<close> is total; it returns none
  exactly when the bytes do not begin with the serialization of any vote list (bytes after
  a serialization are dropped by the source), which is exactly when decoding reports an
  error.
\<close>

theorem voteList_roundtrip:
  "(MarshalToBytes vl = Inr bs \<longrightarrow>
      Bytes vl = bs \<and> NewVoteListFromBytes (Bytes vl) = Some vl) \<and>
   (NewVoteListFromBytes bs' = None \<longleftrightarrow>
      \<not> (\<exists>v e rest. MarshalToBytes v = Inr e \<and> bs' = e @ rest)) \<and>
   (NewVoteListFromBytes bs' = None \<longleftrightarrow> (\<exists>err. UnmarshalFromBytes bs' = Inl err))"
proof (intro conjI impI)
  assume m: "MarshalToBytes vl = Inr bs"
  then show "Bytes vl = bs"
    by (simp add: Bytes_def)
  from Unmarshal_Marshal [OF m, of "[]"] m
  show "NewVoteListFromBytes (Bytes vl) = Some vl"
    by (simp add: Bytes_def NewVoteListFromBytes_def)
next
  show "NewVoteListFromBytes bs' = None \<longleftrightarrow>
      \<not> (\<exists>v e rest. MarshalToBytes v = Inr e \<and> bs' = e @ rest)"
  proof
    assume n: "NewVoteListFromBytes bs' = None"
    show "\<not> (\<exists>v e rest. MarshalToBytes v = Inr e \<and> bs' = e @ rest)"
    proof
      assume "\<exists>v e rest. MarshalToBytes v = Inr e \<and> bs' = e @ rest"
      then obtain v e rest where "MarshalToBytes v = Inr e" "bs' = e @ rest"
        by blast
      with Unmarshal_Marshal [of v e rest] n show False
        by (simp add: NewVoteListFromBytes_def)
    qed
  next
    assume no: "\<not> (\<exists>v e rest. MarshalToBytes v = Inr e \<and> bs' = e @ rest)"
    show "NewVoteListFromBytes bs' = None"
    proof (cases "UnmarshalFromBytes bs'")
      case (Inl err)
      then show ?thesis by (simp add: NewVoteListFromBytes_def)
    next
      case (Inr x)
      then obtain rest v where "UnmarshalFromBytes bs' = Inr (rest, v)"
        by (cases x) simp
      from Unmarshal_sound [OF this] no show ?thesis
        by blast
    qed
  qed
next
  show "NewVoteListFromBytes bs' = None \<longleftrightarrow> (\<exists>err. UnmarshalFromBytes bs' = Inl err)"
    by (cases "UnmarshalFromBytes bs'") (auto simp: NewVoteListFromBytes_def)
qed

lemmas codec_defs = MarshalToBytes_def UnmarshalFromBytes_def enc_psid_def enc_sigs_def
  dec_sigs_def enc_bytes_def dec_bytes_def enc_u32_def Bytes_def NewVoteListFromBytes_def
  votes_def

theorem voteList_roundtrip_witness:
  "MarshalToBytes (votes [[1, 2], [3]]) =
     Inr [0, 0, 0, 0, 0, 0, 0, 0, 2, 0, 0, 0, 2, 1, 2, 0, 0, 0, 1, 3] \<and>
   NewVoteListFromBytes (Bytes (votes [[1, 2], [3]])) = Some (votes [[1, 2], [3]]) \<and>
   NewVoteListFromBytes [1, 2, 3] = None"
  using voteList_roundtrip [of "votes [[1, 2], [3]]"
      "[0, 0, 0, 0, 0, 0, 0, 0, 2, 0, 0, 0, 2, 1, 2, 0, 0, 0, 1, 3]" "[1, 2, 3]"]
  by (simp add: codec_defs)

section \<open>Properties of IISS accounts\<close>

lemma andThen_True [simp]: "andThen (Inr True) rest = rest"
  by (simp add: andThen_def)

lemma CmpEq_same [simp]: "CmpEq (Some x) (Some x) = Inr True"
  by (simp add: CmpEq_def)

text \<open>
  C9, as stated, fails on the bare account that \<open>newAccountWithTag\<close> returns: no
  amount is set and \<open>Clone\<close> panics on the first one it copies.
\<close>

theorem Clone_bare_counterexample:
  "Clone listOps bareAccount = Inl NilDereference"
  by (simp add: bareAccount_def newAccountWithTag_def Clone_def)

text \<open>\<open>Clone\<close> returns an account exactly when all four amounts are set.\<close>

lemma Clone_returns_iff:
  "(\<exists>b. Clone ops a = Inr b) \<longleftrightarrow>
     stake a \<noteq> None \<and> delegating a \<noteq> None \<and> bonding a \<noteq> None \<and> unbonding a \<noteq> None"
  by (auto simp: Clone_def split: option.splits)

text \<open>
  C9, amended. For an account whose four amounts are set, \<open>Clone\<close> returns a new account
  without panicking, and \<open>Equal\<close> of the account and its clone holds: the clone has
  the same address, the same stake, delegating, bonding and unbonding amounts, and the
  clones of the unstakes, delegations, bonds and unbonds. The collections' own \<open>Clone\<close>
  and \<open>Equal\<close> and \<open>EqualAddress\<close> are given: each collection of the account is
  \<open>Equal\<close> to its \<open>Clone\<close>, and the account's address equals itself.
\<close>

theorem Clone_Equal:
  assumes "stake a \<noteq> None" "delegating a \<noteq> None" "bonding a \<noteq> None" "unbonding a \<noteq> None"
    and "EqualAddress ops (acc_address a) (acc_address a)"
    and "Unstakes_Equal ops (unstakes a) (Unstakes_Clone ops (unstakes a))"
    and "Delegations_Equal ops (delegations a) (Delegations_Clone ops (delegations a))"
    and "Bonds_Equal ops (bonds a) (Bonds_Clone ops (bonds a))"
    and "Unbonds_Equal ops (unbonds a) (Unbonds_Clone ops (unbonds a))"
  shows "\<exists>b. Clone ops a = Inr b \<and>
           Account_Equal ops False a (AccountImpl b) = Inr True \<and>
           Account_equal ops False a b = Inr True \<and>
           acc_address b = acc_address a \<and>
           stake b = stake a \<and>
           unstakes b = Unstakes_Clone ops (unstakes a) \<and>
           delegating b = delegating a \<and>
           delegations b = Delegations_Clone ops (delegations a) \<and>
           bonding b = bonding a \<and>
           unbonding b = unbonding a \<and>
           bonds b = Bonds_Clone ops (bonds a) \<and>
           unbonds b = Unbonds_Clone ops (unbonds a)"
proof -
  from assms(1-4) obtain st dg bg ug where
    "stake a = Some st" "delegating a = Some dg" "bonding a = Some bg" "unbonding a = Some ug"
    by auto
  then show ?thesis
    using assms(5-9) by (simp add: Clone_def Account_Equal_def Account_equal_def)
qed

theorem Clone_Equal_witness:
  "stake someAccount \<noteq> None \<and> delegating someAccount \<noteq> None \<and>
   bonding someAccount \<noteq> None \<and> unbonding someAccount \<noteq> None \<and>
   Clone listOps someAccount = Inr someAccount \<and>
   Account_Equal listOps False someAccount (AccountImpl someAccount) = Inr True"
  using Clone_Equal [of someAccount listOps]
  by (simp add: someAccount_def listOps_def Clone_def)

text \<open>With an amount not set, both methods panic; a read-only account refuses.\<close>

lemma Clone_unset_stake: "stake a = None \<Longrightarrow> Clone ops a = Inl NilDereference"
  by (simp add: Clone_def)

lemma SetStake_unset_stake:
  "\<not> readonly a \<Longrightarrow> 0 \<le> v \<Longrightarrow> stake a = None \<Longrightarrow> SetStake a v = Inl NilDereference"
  by (simp add: SetStake_def)

lemma SetStake_readonly: "readonly a \<Longrightarrow> SetStake a v = Inl NotWritable"
  by (simp add: SetStake_def)

text \<open>
  C10, as stated, fails on the bare account that \<open>newAccountWithTag\<close> returns: it is
  writable, and \<open>SetStake\<close> with a non-negative value panics where it writes through
  the stake pointer.
\<close>

theorem SetStake_bare_counterexample:
  "\<not> readonly bareAccount \<and> SetStake bareAccount 7 = Inl NilDereference"
  by (simp add: bareAccount_def newAccountWithTag_def SetStake_def)

text \<open>
  C10, amended. On a writable account, \<open>SetStake\<close> with a negative value returns an
  error and the account as it was, whether its stake is set or not; with a non-negative
  value, on an account whose stake is set, it returns no error and the account with the
  stake replaced by the value and every other field as it was.
\<close>

theorem SetStake_result:
  assumes "\<not> readonly a"
  shows "(v < 0 \<longrightarrow> SetStake a v = Inr (Some NegativeStake, a)) \<and>
         (0 \<le> v \<and> stake a \<noteq> None \<longrightarrow>
            SetStake a v = Inr (None, a\<lparr>stake := Some v\<rparr>))"
  using assms by (auto simp: SetStake_def)

theorem SetStake_result_witness:
  "\<not> readonly someAccount \<and> stake someAccount = Some 100 \<and>
   SetStake someAccount (- 5) = Inr (Some NegativeStake, someAccount) \<and>
   SetStake someAccount 7 = Inr (None, someAccount\<lparr>stake := Some 7\<rparr>) \<and>
   SetStake bareAccount (- 5) = Inr (Some NegativeStake, bareAccount)"
  using SetStake_result [of someAccount "- 5"] SetStake_result [of someAccount 7]
    SetStake_result [of bareAccount "- 5"]
  by (simp add: someAccount_def bareAccount_def newAccountWithTag_def)

end
